theory Spec2Isabelle
  imports Main
begin

section \<open>Data model (src/types/bookmark.ts)\<close>

text \<open>
  A timestamp is the clock reading in milliseconds that \<^verbatim>\<open>new Date()\<close> or
  \<^verbatim>\<open>Date.now()\<close> returned. The service stores \<^verbatim>\<open>toISOString()\<close> of that reading;
  the ISO text determines the reading and is ordered like it, so the model keeps the
  reading itself.
\<close>

type_synonym instant = int

datatype NodeType = bookmark | folder

text \<open>
  \<^verbatim>\<open>BookmarkNode\<close> as the service handles it at run time. \<^verbatim>\<open>updateBookmarkNode\<close>
  builds a node from a \<^verbatim>\<open>Partial<BookmarkNode>\<close> and casts it, so a stored object may
  lack any key but \<^verbatim>\<open>id\<close>, also those the type declares required: each such field
  is an option, \<open>None\<close> standing for a missing key or the value \<^verbatim>\<open>undefined\<close>
  (for \<^verbatim>\<open>parentId\<close> also for \<^verbatim>\<open>null\<close>, the root). The field \<^verbatim>\<open>id\<close> is called
  \<open>nodeId\<close> here, since \<open>id\<close> is the identity function of HOL.
\<close>

record BookmarkNode =
  nodeId :: string
  type :: "NodeType option"
  title :: "string option"
  url :: "string option"
  parentId :: "string option"
  categoryId :: "string option"
  tags :: "string list option"
  createdAt :: "instant option"
  lastAccessed :: "instant option"
  accessCount :: "int option"
  description :: "string option"

text \<open>
  \<^verbatim>\<open>Partial<BookmarkNode>\<close>: for every key, \<open>None\<close> when the object does not have the
  key, \<open>Some v\<close> when it has it with value \<open>v\<close> (and \<open>v = None\<close> is an explicit
  \<^verbatim>\<open>undefined\<close>). The difference matters to object spread, which copies every key the
  right-hand object has, whatever its value. An \<^verbatim>\<open>id\<close> key, when present, holds a string.
\<close>

record NodeUpdates =
  u_id :: "string option"
  u_type :: "NodeType option option"
  u_title :: "string option option"
  u_url :: "string option option"
  u_parentId :: "string option option"
  u_categoryId :: "string option option"
  u_tags :: "string list option option"
  u_createdAt :: "instant option option"
  u_lastAccessed :: "instant option option"
  u_accessCount :: "int option option"
  u_description :: "string option option"

text \<open>
  The argument of \<^verbatim>\<open>addBookmarkOrFolder\<close>:
  \<^verbatim>\<open>Omit<BookmarkNode, 'id' | 'createdAt' | 'lastAccessed' | 'accessCount'> & { type }\<close>.
\<close>

record NodeDraft =
  d_type :: NodeType
  d_title :: string
  d_url :: "string option"
  d_parentId :: "string option"
  d_categoryId :: "string option"
  d_tags :: "string list option"
  d_description :: "string option"

record BookmarkCategory =
  catId :: string
  name :: string
  color :: string
  icon :: string

section \<open>The key-value store (StorageService over chrome.storage.local)\<close>

text \<open>
  The keys the modelled code reads and writes. \<open>None\<close> is a key that is absent (for
  \<open>bookmarks_key\<close> also a value that is not an array, which \<^verbatim>\<open>getBookmarks\<close> treats
  alike). \<open>writes\<close> is a ghost counter of the calls of \<^verbatim>\<open>set\<close> and \<^verbatim>\<open>remove\<close>;
  the code has no such counter, it makes "performs no write" a statement about the state.
  A write that the browser rejects raises in the source; the model covers the writes that
  succeed.
\<close>

record storage =
  bookmarks_key :: "BookmarkNode list option"
  categories_key :: "BookmarkCategory list option"
  lastDeletedBookmark_key :: "BookmarkNode option"
  undoExpire_key :: "instant option"
  writes :: nat

definition setBookmarks :: "BookmarkNode list \<Rightarrow> storage \<Rightarrow> storage" where
  "setBookmarks v s = s\<lparr>bookmarks_key := Some v, writes := Suc (writes s)\<rparr>"

definition setCategories :: "BookmarkCategory list \<Rightarrow> storage \<Rightarrow> storage" where
  "setCategories v s = s\<lparr>categories_key := Some v, writes := Suc (writes s)\<rparr>"

definition getBookmarks :: "storage \<Rightarrow> BookmarkNode list" where
  "getBookmarks s = (case bookmarks_key s of Some data \<Rightarrow> data | None \<Rightarrow> [])"

section \<open>Node operations (src/services/bookmarkService.ts)\<close>

text \<open>\<^verbatim>\<open>Array.prototype.findIndex\<close>, with \<open>None\<close> for the result \<^verbatim>\<open>-1\<close>.\<close>

fun findIndex :: "('a \<Rightarrow> bool) \<Rightarrow> 'a list \<Rightarrow> nat option" where
  "findIndex p [] = None"
| "findIndex p (x # xs) =
     (if p x then Some 0 else map_option Suc (findIndex p xs))"

text \<open>
  One key of \<^verbatim>\<open>{...old, ...updates}\<close>: the value of \<open>updates\<close> when it has the key,
  the old value otherwise; and one key of \<^verbatim>\<open>{...updates}\<close> alone.
\<close>

definition spread :: "'a option \<Rightarrow> 'a option option \<Rightarrow> 'a option" where
  "spread old upd = (case upd of None \<Rightarrow> old | Some v \<Rightarrow> v)"

definition given :: "'a option option \<Rightarrow> 'a option" where
  "given upd = spread None upd"

text \<open>
  \<^verbatim>\<open>addBookmarkOrFolder(node)\<close>. \<open>uuid\<close> is what \<^verbatim>\<open>crypto.randomUUID()\<close> returned,
  \<open>t1\<close> and \<open>t2\<close> are the two clock readings, the first for \<^verbatim>\<open>createdAt\<close> and the
  second (taken for a bookmark only) for \<^verbatim>\<open>lastAccessed\<close>.
\<close>

definition newNode :: "NodeDraft \<Rightarrow> string \<Rightarrow> instant \<Rightarrow> instant \<Rightarrow> BookmarkNode" where
  "newNode node uuid t1 t2 =
     \<lparr> nodeId = uuid,
       type = Some (d_type node),
       title = Some (d_title node),
       url = d_url node,
       parentId = d_parentId node,
       categoryId = d_categoryId node,
       tags = d_tags node,
       createdAt = Some t1,
       lastAccessed = (if d_type node = bookmark then Some t2 else None),
       accessCount = (if d_type node = bookmark then Some 0 else None),
       description = d_description node \<rparr>"

definition addBookmarkOrFolder ::
  "NodeDraft \<Rightarrow> string \<Rightarrow> instant \<Rightarrow> instant \<Rightarrow> storage \<Rightarrow> BookmarkNode \<times> storage" where
  "addBookmarkOrFolder node uuid t1 t2 s =
     (let bookmarks = getBookmarks s;
          n = newNode node uuid t1 t2;
          updatedBookmarks = bookmarks @ [n]
      in (n, setBookmarks updatedBookmarks s))"

text \<open>
  \<^verbatim>\<open>updateBookmarkNode(id, updates)\<close>, \<open>now\<close> being the clock reading of the call.
  \<open>restoredNode\<close> is the object of the branch \<^verbatim>\<open>index === -1\<close>, \<open>updatedNode\<close> the
  one of the other branch: the later keys of an object literal win, so \<^verbatim>\<open>id\<close> (first
  branch) and \<^verbatim>\<open>lastAccessed\<close> (both) override what \<open>updates\<close> holds for them.
\<close>

definition restoredNode :: "string \<Rightarrow> NodeUpdates \<Rightarrow> instant \<Rightarrow> BookmarkNode" where
  "restoredNode i updates now =
     \<lparr> nodeId = i,
       type = given (u_type updates),
       title = given (u_title updates),
       url = given (u_url updates),
       parentId = given (u_parentId updates),
       categoryId = given (u_categoryId updates),
       tags = given (u_tags updates),
       createdAt = given (u_createdAt updates),
       lastAccessed = (if given (u_type updates) = Some bookmark then Some now else None),
       accessCount = given (u_accessCount updates),
       description = given (u_description updates) \<rparr>"

definition updatedNode :: "BookmarkNode \<Rightarrow> NodeUpdates \<Rightarrow> instant \<Rightarrow> BookmarkNode" where
  "updatedNode old updates now =
     \<lparr> nodeId = (case u_id updates of None \<Rightarrow> nodeId old | Some i \<Rightarrow> i),
       type = spread (type old) (u_type updates),
       title = spread (title old) (u_title updates),
       url = spread (url old) (u_url updates),
       parentId = spread (parentId old) (u_parentId updates),
       categoryId = spread (categoryId old) (u_categoryId updates),
       tags = spread (tags old) (u_tags updates),
       createdAt = spread (createdAt old) (u_createdAt updates),
       lastAccessed = (if type old = Some bookmark then Some now else None),
       accessCount = spread (accessCount old) (u_accessCount updates),
       description = spread (description old) (u_description updates) \<rparr>"

definition updateBookmarkNode ::
  "string \<Rightarrow> NodeUpdates \<Rightarrow> instant \<Rightarrow> storage \<Rightarrow> BookmarkNode \<times> storage" where
  "updateBookmarkNode i updates now s =
     (let bookmarks = getBookmarks s
      in case findIndex (\<lambda>b. nodeId b = i) bookmarks of
           None \<Rightarrow>
             (let r = restoredNode i updates now;
                  updatedBookmarks = bookmarks @ [r]
              in (r, setBookmarks updatedBookmarks s))
         | Some index \<Rightarrow>
             (let u = updatedNode (bookmarks ! index) updates now
              in (u, setBookmarks (bookmarks[index := u]) s)))"

text \<open>
  \<^verbatim>\<open>deleteBookmarkNode(id)\<close>. \<open>childOf node toDelete\<close> is the test
  \<^verbatim>\<open>node.parentId && toDelete.has(node.parentId)\<close>: an empty string is falsy, like
  \<^verbatim>\<open>null\<close>. \<open>scanPass\<close> is one run of the \<^verbatim>\<open>for\<close> loop over the list, carrying the
  set and the flag \<^verbatim>\<open>found\<close>; \<open>closureLoop\<close> is the \<^verbatim>\<open>do ... while (found)\<close> around
  it, which starts each pass with \<^verbatim>\<open>found = false\<close>. The loop of the source has no bound,
  so the model is a partial function: \<open>None\<close> means that the loop never ends.
\<close>

definition childOf :: "BookmarkNode \<Rightarrow> string set \<Rightarrow> bool" where
  "childOf node toDelete =
     (case parentId node of None \<Rightarrow> False | Some p \<Rightarrow> p \<noteq> [] \<and> p \<in> toDelete)"

fun scanPass :: "BookmarkNode list \<Rightarrow> string set \<Rightarrow> bool \<Rightarrow> string set \<times> bool" where
  "scanPass [] toDelete found = (toDelete, found)"
| "scanPass (node # rest) toDelete found =
     (if childOf node toDelete
      then scanPass rest (insert (nodeId node) toDelete) True
      else scanPass rest toDelete found)"

partial_function (option) closureLoop :: "BookmarkNode list \<Rightarrow> string set \<Rightarrow> string set option" where
  "closureLoop bookmarks toDelete =
     (let r = scanPass bookmarks toDelete False
      in if snd r then closureLoop bookmarks (fst r) else Some (fst r))"

definition deleteBookmarkNode :: "string \<Rightarrow> storage \<Rightarrow> (bool \<times> storage) option" where
  "deleteBookmarkNode i s =
     (let bookmarks = getBookmarks s
      in case closureLoop bookmarks {i} of
           None \<Rightarrow> None
         | Some toDelete \<Rightarrow>
             (let updatedBookmarks = filter (\<lambda>b. nodeId b \<notin> toDelete) bookmarks;
                  changed = (length updatedBookmarks \<noteq> length bookmarks)
              in if \<not> changed then Some (False, s)
                 else Some (True, setBookmarks updatedBookmarks s)))"

section \<open>Categories\<close>

text \<open>
  \<^verbatim>\<open>deleteCategory(id)\<close> reads the key \<^verbatim>\<open>bookmark_categories\<close> with the default
  \<^verbatim>\<open>[]\<close>, filters and writes that key.
\<close>

definition deleteCategory :: "string \<Rightarrow> storage \<Rightarrow> storage" where
  "deleteCategory i s =
     (let bookmark_categories = (case categories_key s of None \<Rightarrow> [] | Some cs \<Rightarrow> cs);
          updatedCategories = filter (\<lambda>cat. catId cat \<noteq> i) bookmark_categories
      in setCategories updatedCategories s)"

section \<open>Duplicate detection and merge (src/components/BookmarkTable/index.tsx)\<close>

text \<open>
  \<^verbatim>\<open>findDuplicates\<close>. The \<^verbatim>\<open>Map<string, string[]>\<close> is an association list in insertion
  order, as a JavaScript \<^verbatim>\<open>Map\<close> iterates. \<open>urlKey bm\<close> is \<^verbatim>\<open>bm.url || ''\<close>;
  \<open>recordUrl\<close> is the body of the \<^verbatim>\<open>forEach\<close>.
\<close>

record DuplicateGroup =
  g_url :: string
  g_ids :: "string list"

definition urlKey :: "BookmarkNode \<Rightarrow> string" where
  "urlKey bm = (case url bm of None \<Rightarrow> [] | Some u \<Rightarrow> u)"

definition mapHas :: "(string \<times> string list) list \<Rightarrow> string \<Rightarrow> bool" where
  "mapHas urlMap k = (k \<in> set (map fst urlMap))"

fun pushTo :: "string \<Rightarrow> string \<Rightarrow> (string \<times> string list) list \<Rightarrow> (string \<times> string list) list" where
  "pushTo k v [] = []"
| "pushTo k v ((k', vs) # m) =
     (if k' = k then (k', vs @ [v]) # m else (k', vs) # pushTo k v m)"

definition recordUrl :: "(string \<times> string list) list \<Rightarrow> BookmarkNode \<Rightarrow> (string \<times> string list) list" where
  "recordUrl urlMap bm =
     (let m = (if \<not> mapHas urlMap (urlKey bm) then urlMap @ [(urlKey bm, [])] else urlMap)
      in pushTo (urlKey bm) (nodeId bm) m)"

definition buildUrlMap :: "BookmarkNode list \<Rightarrow> (string \<times> string list) list" where
  "buildUrlMap safeBookmarks = foldl recordUrl [] safeBookmarks"

definition duplicateIds :: "BookmarkNode list \<Rightarrow> string list" where
  "duplicateIds safeBookmarks =
     concat (filter (\<lambda>ids. length ids > 1) (map snd (buildUrlMap safeBookmarks)))"

definition findDuplicates :: "BookmarkNode list \<Rightarrow> DuplicateGroup list" where
  "findDuplicates safeBookmarks =
     map (\<lambda>(u, ids). \<lparr>g_url = u, g_ids = ids\<rparr>)
       (filter (\<lambda>(u, ids). length ids > 1) (buildUrlMap safeBookmarks))"

text \<open>
  One iteration of the loop of \<^verbatim>\<open>handleMerge\<close> over \<^verbatim>\<open>duplicateGroups\<close>, after the
  confirmation dialog. \<open>uniq\<close> is \<^verbatim>\<open>Array.from(new Set(xs))\<close>: a \<^verbatim>\<open>Set\<close> keeps the
  first occurrence of each element, in insertion order. \<open>asUpdates\<close> is a node read as a
  \<^verbatim>\<open>Partial<BookmarkNode>\<close>: it has the key \<^verbatim>\<open>parentId\<close>, which a node carries also
  at the root (with the value \<^verbatim>\<open>null\<close>, which the store keeps), and the other keys whose
  values are defined (what a node that went through the store has); \<open>noUpdates\<close> is the
  object \<^verbatim>\<open>{}\<close>.
\<close>

definition uniq :: "'a list \<Rightarrow> 'a list" where
  "uniq xs = foldl (\<lambda>seen x. if x \<in> set seen then seen else seen @ [x]) [] xs"

definition noUpdates :: NodeUpdates where
  "noUpdates =
     \<lparr> u_id = None, u_type = None, u_title = None, u_url = None, u_parentId = None,
       u_categoryId = None, u_tags = None, u_createdAt = None, u_lastAccessed = None,
       u_accessCount = None, u_description = None \<rparr>"

definition asUpdates :: "BookmarkNode \<Rightarrow> NodeUpdates" where
  "asUpdates n =
     \<lparr> u_id = Some (nodeId n),
       u_type = map_option Some (type n),
       u_title = map_option Some (title n),
       u_url = map_option Some (url n),
       u_parentId = Some (parentId n),
       u_categoryId = map_option Some (categoryId n),
       u_tags = map_option Some (tags n),
       u_createdAt = map_option Some (createdAt n),
       u_lastAccessed = map_option Some (lastAccessed n),
       u_accessCount = map_option Some (accessCount n),
       u_description = map_option Some (description n) \<rparr>"









section \<open>The single-delete undo buffer (popup component)\<close>

text \<open>
  The component state of the undo buffer: \<^verbatim>\<open>lastDeleted\<close>, \<^verbatim>\<open>undoExpire\<close>,
  \<^verbatim>\<open>undoSeconds\<close>, \<^verbatim>\<open>undoHovered\<close> and the ref \<^verbatim>\<open>undoPausedAt\<close>. A number is truthy
  when it is not zero. \<open>ceilDiv1000 x\<close> is \<^verbatim>\<open>Math.ceil(x / 1000)\<close>, which is exact for
  the differences of millisecond clock readings.
\<close>

record undoBuffer =
  lastDeleted :: "BookmarkNode option"
  undoExpire :: "instant option"
  undoSeconds :: int
  undoHovered :: bool
  undoPausedAt :: "int option"

definition truthyNum :: "int option \<Rightarrow> bool" where
  "truthyNum v = (case v of None \<Rightarrow> False | Some x \<Rightarrow> x \<noteq> 0)"

definition ceilDiv1000 :: "int \<Rightarrow> int" where
  "ceilDiv1000 x = - ((- x) div 1000)"

definition removeUndoRecord :: "storage \<Rightarrow> storage" where
  "removeUndoRecord s =
     s\<lparr>lastDeletedBookmark_key := None, undoExpire_key := None, writes := Suc (writes s)\<rparr>"

text \<open>The effect run on mount, which rehydrates a pending undo from the store.\<close>

definition rehydrate :: "instant \<Rightarrow> undoBuffer \<times> storage \<Rightarrow> undoBuffer \<times> storage" where
  "rehydrate now st =
     (case st of (u, s) \<Rightarrow>
        (case lastDeletedBookmark_key s of
           None \<Rightarrow> (u, s)
         | Some bm \<Rightarrow>
             if truthyNum (undoExpire_key s)
             then (let e = the (undoExpire_key s)
                   in if e > now
                      then (u\<lparr>lastDeleted := Some bm, undoExpire := Some e,
                              undoSeconds := ceilDiv1000 (e - now)\<rparr>, s)
                      else (u, removeUndoRecord s))
             else (u, s)))"

text \<open>
  The countdown effect installs its 200 ms interval only while
  \<^verbatim>\<open>lastDeleted && !undoHovered && undoExpire\<close> holds, and removes it when one of the
  three changes. \<open>countdownTick now\<close> is what happens when the interval is due at time
  \<open>now\<close>: nothing when no interval is installed, the callback otherwise.
\<close>

definition countdownRunning :: "undoBuffer \<Rightarrow> bool" where
  "countdownRunning u = (lastDeleted u \<noteq> None \<and> \<not> undoHovered u \<and> truthyNum (undoExpire u))"

definition countdownTick :: "instant \<Rightarrow> undoBuffer \<times> storage \<Rightarrow> undoBuffer \<times> storage" where
  "countdownTick now st =
     (case st of (u, s) \<Rightarrow>
        if countdownRunning u
        then (let secondsLeft = ceilDiv1000 (the (undoExpire u) - now);
                  u' = u\<lparr>undoSeconds := secondsLeft\<rparr>
              in if secondsLeft \<le> 0
                 then (u'\<lparr>lastDeleted := None, undoExpire := None\<rparr>, removeUndoRecord s)
                 else (u', s))
        else (u, s))"

definition handleUndoMouseEnter :: "instant \<Rightarrow> undoBuffer \<Rightarrow> undoBuffer" where
  "handleUndoMouseEnter now u =
     (let u' = u\<lparr>undoHovered := True\<rparr>
      in if truthyNum (undoExpire u)
         then u'\<lparr>undoPausedAt := Some (the (undoExpire u) - now)\<rparr>
         else u')"

definition handleUndoMouseLeave :: "instant \<Rightarrow> undoBuffer \<times> storage \<Rightarrow> undoBuffer \<times> storage" where
  "handleUndoMouseLeave now st =
     (case st of (u, s) \<Rightarrow>
        (let u' = u\<lparr>undoHovered := False\<rparr>
         in if truthyNum (undoPausedAt u) \<and> lastDeleted u \<noteq> None
            then (let newExpire = now + the (undoPausedAt u)
                  in (u'\<lparr>undoExpire := Some newExpire,
                         undoSeconds := ceilDiv1000 (the (undoPausedAt u)),
                         undoPausedAt := None\<rparr>,
                      s\<lparr>undoExpire_key := Some newExpire, writes := Suc (writes s)\<rparr>))
            else (u', s)))"

text \<open>
  \<^verbatim>\<open>handleUndo\<close>: nothing without a buffered node; otherwise the node goes back through
  \<^verbatim>\<open>updateBookmarkNode(lastDeleted.id, lastDeleted)\<close> and the buffer and its persisted
  record are cleared.
\<close>

definition handleUndo :: "instant \<Rightarrow> undoBuffer \<times> storage \<Rightarrow> undoBuffer \<times> storage" where
  "handleUndo now st =
     (case st of (u, s) \<Rightarrow>
        (case lastDeleted u of
           None \<Rightarrow> (u, s)
         | Some bm \<Rightarrow>
             (let (r, s') = updateBookmarkNode (nodeId bm) (asUpdates bm) now s
              in (u\<lparr>lastDeleted := None, undoExpire := None\<rparr>, removeUndoRecord s'))))"

text \<open>
  \<^verbatim>\<open>handleDeleteWithUndo(id)\<close>, confirmed or silent: the buffer gets the node and the
  expiry five seconds ahead, both are persisted, then the node is deleted. The list
  the component holds is the stored one. \<open>None\<close> is a delete that never returns.
\<close>

definition handleDeleteWithUndo ::
  "string \<Rightarrow> instant \<Rightarrow> undoBuffer \<times> storage \<Rightarrow> (undoBuffer \<times> storage) option" where
  "handleDeleteWithUndo i now st =
     (case st of (u, s) \<Rightarrow>
        (case find (\<lambda>b. nodeId b = i) (getBookmarks s) of
           None \<Rightarrow> Some (u, s)
         | Some bm \<Rightarrow>
             (let expire = now + 5000;
                  u' = u\<lparr>lastDeleted := Some bm, undoExpire := Some expire, undoSeconds := 5\<rparr>;
                  s' = s\<lparr>lastDeletedBookmark_key := Some bm, undoExpire_key := Some expire,
                         writes := Suc (writes s)\<rparr>
              in map_option (\<lambda>r. (u', snd r)) (deleteBookmarkNode i s'))))"

section \<open>Example data\<close>

text \<open>
  The forest of the specification's cascade example: FolderA at the root holds FolderB,
  which holds BookmarkX; BookmarkY is a sibling at the root.
\<close>

definition folderA :: BookmarkNode where
  "folderA =
     \<lparr> nodeId = ''A'', type = Some folder, title = Some ''FolderA'', url = None,
       parentId = None, categoryId = None, tags = None, createdAt = Some 1000,
       lastAccessed = None, accessCount = None, description = None \<rparr>"

definition folderB :: BookmarkNode where
  "folderB =
     \<lparr> nodeId = ''B'', type = Some folder, title = Some ''FolderB'', url = None,
       parentId = Some ''A'', categoryId = None, tags = None, createdAt = Some 1100,
       lastAccessed = None, accessCount = None, description = None \<rparr>"

definition bookmarkX :: BookmarkNode where
  "bookmarkX =
     \<lparr> nodeId = ''X'', type = Some bookmark, title = Some ''BookmarkX'',
       url = Some ''https://ex.com/x'', parentId = Some ''B'', categoryId = None,
       tags = Some [''x'', ''y''], createdAt = Some 1200, lastAccessed = Some 1200,
       accessCount = Some 0, description = None \<rparr>"

definition bookmarkY :: BookmarkNode where
  "bookmarkY =
     \<lparr> nodeId = ''Y'', type = Some bookmark, title = Some ''BookmarkY'',
       url = Some ''https://ex.com/y'', parentId = None, categoryId = Some ''c1'',
       tags = Some [''y'', ''z''], createdAt = Some 1300, lastAccessed = Some 2000,
       accessCount = Some 0, description = None \<rparr>"

definition emptyStore :: storage where
  "emptyStore =
     \<lparr> bookmarks_key = None, categories_key = None, lastDeletedBookmark_key = None,
       undoExpire_key = None, writes = 0 \<rparr>"

definition treeStore :: storage where
  "treeStore = emptyStore\<lparr>bookmarks_key := Some [folderA, folderB, bookmarkX, bookmarkY]\<rparr>"

text \<open>A store whose only node names a parent that is not stored.\<close>

definition orphanStore :: storage where
  "orphanStore = emptyStore\<lparr>bookmarks_key := Some [bookmarkX]\<rparr>"

text \<open>
  The draft and the update of the specification's scenario, a folder that carries a
  \<^verbatim>\<open>lastAccessed\<close> (as an imported one can) and the store after BookmarkY was deleted.
\<close>

definition exDraft :: NodeDraft where
  "exDraft =
     \<lparr> d_type = bookmark, d_title = ''Ex'', d_url = Some ''https://ex.com'',
       d_parentId = None, d_categoryId = None, d_tags = None, d_description = None \<rparr>"

definition renameUpdates :: NodeUpdates where
  "renameUpdates = noUpdates\<lparr>u_title := Some (Some ''Ex2'')\<rparr>"

definition importedFolder :: BookmarkNode where
  "importedFolder = folderA\<lparr>nodeId := ''F'', lastAccessed := Some 1500\<rparr>"

definition importedStore :: storage where
  "importedStore = emptyStore\<lparr>bookmarks_key := Some [importedFolder, bookmarkY]\<rparr>"

definition storeAfterDeleteY :: storage where
  "storeAfterDeleteY = setBookmarks [folderA, folderB, bookmarkX] treeStore"

text \<open>
  Two bookmarks with the same url and the tags of the specification's merge example,
  a third whose url differs from theirs in case only, the group that holds the two, and
  the merge options as the component initialises them; further a node that repeats the
  id of the first under the third's url, and a bookmark whose url is the empty string.
\<close>

definition dupA :: BookmarkNode where
  "dupA = bookmarkX\<lparr>nodeId := ''d1'', url := Some ''https://ex.com'', parentId := None\<rparr>"

definition dupB :: BookmarkNode where
  "dupB = bookmarkY\<lparr>nodeId := ''d2'', url := Some ''https://ex.com''\<rparr>"

definition dupC :: BookmarkNode where
  "dupC = bookmarkY\<lparr>nodeId := ''d3'', url := Some ''https://EX.com''\<rparr>"

definition dupD :: BookmarkNode where
  "dupD = dupC\<lparr>nodeId := ''d1''\<rparr>"

definition blankUrl :: BookmarkNode where
  "blankUrl = bookmarkY\<lparr>nodeId := ''E'', url := Some []\<rparr>"

definition dupList :: "BookmarkNode list" where
  "dupList = [dupA, bookmarkY, dupB, dupC]"

definition exGroup :: DuplicateGroup where
  "exGroup = \<lparr>g_url = ''https://ex.com'', g_ids = [''d1'', ''d2'']\<rparr>"



text \<open>
  The undo buffer at rest, and buffer and store after BookmarkY was deleted with undo
  at time 1000: the expiry is 6000.
\<close>

definition idleBuffer :: undoBuffer where
  "idleBuffer =
     \<lparr> lastDeleted = None, undoExpire = None, undoSeconds = 5, undoHovered = False,
       undoPausedAt = None \<rparr>"

definition pendingBuffer :: undoBuffer where
  "pendingBuffer = idleBuffer\<lparr>lastDeleted := Some bookmarkY, undoExpire := Some 6000\<rparr>"

definition pendingStore :: storage where
  "pendingStore =
     setBookmarks [folderA, folderB, bookmarkX]
       (treeStore\<lparr>lastDeletedBookmark_key := Some bookmarkY, undoExpire_key := Some 6000,
                   writes := Suc (writes treeStore)\<rparr>)"

section \<open>The closure loop of deleteBookmarkNode\<close>

lemma childOf_mono: "childOf b D \<Longrightarrow> D \<subseteq> D' \<Longrightarrow> childOf b D'"
  by (auto simp: childOf_def split: option.splits)

lemma scanPass_grows: "D \<subseteq> fst (scanPass bs D f)"
proof (induction bs arbitrary: D f)
  case Nil show ?case by simp
next
  case (Cons b bs)
  have "insert (nodeId b) D \<subseteq> fst (scanPass bs (insert (nodeId b) D) True)" by (rule Cons.IH)
  moreover have "D \<subseteq> fst (scanPass bs D f)" by (rule Cons.IH)
  ultimately show ?case by auto
qed

lemma scanPass_keeps_flag: "f \<Longrightarrow> snd (scanPass bs D f)"
  by (induction bs arbitrary: D f) auto

text \<open>A pass over a list that holds a child of the set ends with \<^verbatim>\<open>found\<close> set.\<close>

lemma scanPass_finds: "\<exists>b\<in>set bs. childOf b D \<Longrightarrow> snd (scanPass bs D f)"
proof (induction bs arbitrary: D f)
  case Nil then show ?case by simp
next
  case (Cons b bs)
  show ?case
  proof (cases "childOf b D")
    case True then show ?thesis by (simp add: scanPass_keeps_flag)
  next
    case False
    with Cons.prems have "\<exists>c\<in>set bs. childOf c D" by auto
    with False show ?thesis by (simp add: Cons.IH)
  qed
qed

lemma scanPass_idle: "\<forall>b\<in>set bs. \<not> childOf b D \<Longrightarrow> scanPass bs D f = (D, f)"
  by (induction bs arbitrary: f) auto

text \<open>
  A pass that sets \<^verbatim>\<open>found\<close> leaves a set that still has a child in the list: the
  node that set the flag. So the next pass sets the flag again.
\<close>

lemma scanPass_found_child:
  "snd (scanPass bs D f) \<Longrightarrow> f \<or> (\<exists>b\<in>set bs. childOf b (fst (scanPass bs D f)))"
proof (induction bs arbitrary: D f)
  case Nil then show ?case by simp
next
  case (Cons b bs)
  show ?case
  proof (cases "childOf b D")
    case True
    have "D \<subseteq> fst (scanPass bs (insert (nodeId b) D) True)"
      using scanPass_grows[of "insert (nodeId b) D" bs True] by auto
    with True have "childOf b (fst (scanPass bs (insert (nodeId b) D) True))"
      by (rule childOf_mono)
    with True show ?thesis by simp
  next
    case False
    with Cons.prems have "snd (scanPass bs D f)" by simp
    from Cons.IH[OF this] False show ?thesis by auto
  qed
qed

lemma closureLoop_Some:
  assumes "closureLoop bs D = Some y"
  shows "(\<forall>b\<in>set bs. \<not> childOf b D) \<and> y = D"
proof (rule closureLoop.raw_induct
         [where P = "\<lambda>bs D y. (\<forall>b\<in>set bs. \<not> childOf b D) \<and> y = D", OF _ assms])
  fix loop :: "BookmarkNode list \<Rightarrow> string set \<Rightarrow> string set option"
  fix bs D y
  assume IH: "\<And>bs D y. loop bs D = Some y \<Longrightarrow> (\<forall>b\<in>set bs. \<not> childOf b D) \<and> y = D"
  assume body: "(let r = scanPass bs D False
                 in if snd r then loop bs (fst r) else Some (fst r)) = Some y"
  let ?r = "scanPass bs D False"
  show "(\<forall>b\<in>set bs. \<not> childOf b D) \<and> y = D"
  proof (cases "snd ?r")
    case True
    with body have "loop bs (fst ?r) = Some y" by (simp add: Let_def)
    from IH[OF this] have "\<forall>b\<in>set bs. \<not> childOf b (fst ?r)" by simp
    moreover from scanPass_found_child[OF True] have "\<exists>b\<in>set bs. childOf b (fst ?r)" by simp
    ultimately show ?thesis by blast
  next
    case False
    with scanPass_finds[of bs D False] have none: "\<forall>b\<in>set bs. \<not> childOf b D" by blast
    from False body have "y = fst ?r" by (simp add: Let_def)
    with none show ?thesis by (simp add: scanPass_idle)
  qed
qed

text \<open>
  The loop returns exactly when the list holds no child of the starting set, and then
  it returns that set: with a child in the list every pass sets \<^verbatim>\<open>found\<close>.
\<close>

lemma closureLoop_eq:
  "closureLoop bs D = (if \<exists>b\<in>set bs. childOf b D then None else Some D)"
proof (cases "\<exists>b\<in>set bs. childOf b D")
  case True
  have "closureLoop bs D = None"
  proof (cases "closureLoop bs D")
    case None then show ?thesis .
  next
    case (Some y)
    from closureLoop_Some[OF this] True show ?thesis by blast
  qed
  with True show ?thesis by simp
next
  case False
  then have "scanPass bs D False = (D, False)" by (simp add: scanPass_idle)
  then have "closureLoop bs D = Some D" by (subst closureLoop.simps) (simp add: Let_def)
  with False show ?thesis by simp
qed

lemma length_filter_changed:
  "(length (filter P xs) \<noteq> length xs) = (\<exists>x\<in>set xs. \<not> P x)"
proof
  assume "length (filter P xs) \<noteq> length xs"
  then have "filter P xs \<noteq> xs" by auto
  then show "\<exists>x\<in>set xs. \<not> P x" by (simp add: filter_id_conv)
next
  assume "\<exists>x\<in>set xs. \<not> P x"
  then obtain x where "x \<in> set xs" "\<not> P x" by blast
  then have "length (filter P xs) < length xs" by (rule length_filter_less)
  then show "length (filter P xs) \<noteq> length xs" by simp
qed

lemma deleteBookmarkNode_eq:
  "deleteBookmarkNode i s =
     (if \<exists>b\<in>set (getBookmarks s). childOf b {i} then None
      else if i \<in> nodeId ` set (getBookmarks s)
           then Some (True, setBookmarks (filter (\<lambda>b. nodeId b \<noteq> i) (getBookmarks s)) s)
           else Some (False, s))"
proof -
  have changed: "(length (filter (\<lambda>b. nodeId b \<noteq> i) (getBookmarks s)) = length (getBookmarks s))
                   = (i \<notin> nodeId ` set (getBookmarks s))"
    using length_filter_changed[of "\<lambda>b. nodeId b \<noteq> i" "getBookmarks s"] by auto
  show ?thesis
    by (simp add: deleteBookmarkNode_def Let_def closureLoop_eq changed)
qed

lemma getBookmarks_treeStore:
  "getBookmarks treeStore = [folderA, folderB, bookmarkX, bookmarkY]"
  by (simp add: getBookmarks_def treeStore_def emptyStore_def)

lemma getBookmarks_orphanStore: "getBookmarks orphanStore = [bookmarkX]"
  by (simp add: getBookmarks_def orphanStore_def emptyStore_def)

section \<open>Cascade delete\<close>

text \<open>
  Claim C1: for every forest and every folder F in it, delete(F.id) removes F and every
  node whose parentId chain reaches F, and leaves every other node in the stored list.

  The code does not do this. On the forest of the specification's own example,
  \<^verbatim>\<open>deleteBookmarkNode("A")\<close> never returns: FolderB names A as its parent, so every
  pass of the \<^verbatim>\<open>for\<close> loop sets \<^verbatim>\<open>found = true\<close>, whether or not the pass added
  an id that the set did not hold, and the \<^verbatim>\<open>do ... while (found)\<close> never ends. Nothing
  is removed and nothing is written.
\<close>

theorem delete_folder_with_child_never_returns:
  "deleteBookmarkNode ''A'' treeStore = None"
  by (simp add: deleteBookmarkNode_eq getBookmarks_treeStore childOf_def folderA_def folderB_def)

section \<open>Delete of an id that is not stored\<close>

text \<open>
  Claim C3, as amended: for every stored node list and every id that no stored node
  names as its parent, delete(id) returns; it returns false and performs no write (the
  store is unchanged) when the id identifies no stored node, and it returns true, with
  one write of the list without the nodes of that id, when it identifies one: true
  exactly when at least one node was removed.
\<close>

theorem delete_unreferenced_id:
  assumes "\<forall>b\<in>set (getBookmarks s). \<not> childOf b {i}"
  shows "(i \<notin> nodeId ` set (getBookmarks s) \<longrightarrow> deleteBookmarkNode i s = Some (False, s))
       \<and> (i \<in> nodeId ` set (getBookmarks s) \<longrightarrow>
            deleteBookmarkNode i s
              = Some (True, setBookmarks (filter (\<lambda>b. nodeId b \<noteq> i) (getBookmarks s)) s)
            \<and> length (filter (\<lambda>b. nodeId b \<noteq> i) (getBookmarks s)) < length (getBookmarks s))"
proof -
  have "i \<in> nodeId ` set (getBookmarks s) \<Longrightarrow>
          length (filter (\<lambda>b. nodeId b \<noteq> i) (getBookmarks s)) < length (getBookmarks s)"
    by (auto intro: length_filter_less)
  with assms show ?thesis by (simp add: deleteBookmarkNode_eq)
qed

theorem delete_unreferenced_id_witness:
  "list_all (\<lambda>b. \<not> childOf b {''Q''}) (getBookmarks treeStore)
   \<and> ''Q'' \<notin> nodeId ` set (getBookmarks treeStore)
   \<and> deleteBookmarkNode ''Q'' treeStore = Some (False, treeStore)"
proof -
  have h: "\<forall>b\<in>set (getBookmarks treeStore). \<not> childOf b {''Q''}"
    by (simp add: getBookmarks_treeStore childOf_def folderA_def folderB_def
                  bookmarkX_def bookmarkY_def)
  have n: "''Q'' \<notin> nodeId ` set (getBookmarks treeStore)"
    by (simp add: getBookmarks_treeStore folderA_def folderB_def bookmarkX_def bookmarkY_def)
  from delete_unreferenced_id[OF h] n h show ?thesis by (simp add: list_all_iff)
qed

text \<open>
  The claim as stated fails where the id identifies no stored node but a stored node
  names it as its parent: \<^verbatim>\<open>deleteBookmarkNode("B")\<close> on a store that holds only
  BookmarkX, whose parent is B, does not return false.
\<close>

theorem delete_missing_id_counterexample:
  "''B'' \<notin> nodeId ` set (getBookmarks orphanStore)
   \<and> deleteBookmarkNode ''B'' orphanStore \<noteq> Some (False, orphanStore)"
  by (simp add: deleteBookmarkNode_eq getBookmarks_orphanStore childOf_def bookmarkX_def)

section \<open>Add and update\<close>

lemma findIndex_Some:
  "findIndex p xs = Some k \<Longrightarrow> k < length xs \<and> p (xs ! k) \<and> (\<forall>j<k. \<not> p (xs ! j))"
proof (induction xs arbitrary: k)
  case Nil then show ?case by simp
next
  case (Cons x xs)
  show ?case
  proof (cases "p x")
    case True with Cons.prems show ?thesis by simp
  next
    case False
    with Cons.prems obtain k' where k': "findIndex p xs = Some k'" "k = Suc k'" by auto
    from Cons.IH[OF k'(1)] False k'(2) show ?thesis by (auto simp: less_Suc_eq_0_disj)
  qed
qed

lemma findIndex_None: "(findIndex p xs = None) = (\<forall>x\<in>set xs. \<not> p x)"
  by (induction xs) auto

lemma findIndex_append_fresh:
  "\<forall>x\<in>set xs. \<not> p x \<Longrightarrow> p y \<Longrightarrow> findIndex p (xs @ [y]) = Some (length xs)"
  by (induction xs) auto

lemma given_present [simp]: "given (map_option Some v) = v"
  by (cases v) (simp_all add: given_def spread_def)

lemma given_Some [simp]: "given (Some v) = v"
  by (simp add: given_def spread_def)

lemma getBookmarks_setBookmarks [simp]: "getBookmarks (setBookmarks v s) = v"
  by (simp add: getBookmarks_def setBookmarks_def)

lemma writes_setBookmarks [simp]: "writes (setBookmarks v s) = Suc (writes s)"
  by (simp add: setBookmarks_def)

lemma update_found:
  assumes "findIndex (\<lambda>b. nodeId b = i) (getBookmarks s) = Some k"
  shows "updateBookmarkNode i updates now s
           = (updatedNode (getBookmarks s ! k) updates now,
              setBookmarks ((getBookmarks s)[k := updatedNode (getBookmarks s ! k) updates now]) s)"
  using assms by (simp add: updateBookmarkNode_def Let_def)

lemma update_missing:
  assumes "i \<notin> nodeId ` set (getBookmarks s)"
  shows "updateBookmarkNode i updates now s
           = (restoredNode i updates now,
              setBookmarks (getBookmarks s @ [restoredNode i updates now]) s)"
proof -
  from assms have "findIndex (\<lambda>b. nodeId b = i) (getBookmarks s) = None"
    by (auto simp: findIndex_None)
  then show ?thesis by (simp add: updateBookmarkNode_def Let_def)
qed

text \<open>
  Claim C5, as amended: for every node draft, add assigns the id that
  \<^verbatim>\<open>crypto.randomUUID()\<close> returned, without comparing it with the stored ids: the ids
  after the call are pairwise different exactly when the stored ids were and the
  returned id is the id of no stored node. Add sets \<^verbatim>\<open>createdAt\<close> and, for a bookmark,
  \<^verbatim>\<open>lastAccessed\<close> to the clock readings of the call, sets \<^verbatim>\<open>accessCount\<close> to 0 for a
  bookmark and leaves both \<^verbatim>\<open>lastAccessed\<close> and \<^verbatim>\<open>accessCount\<close> out for a folder,
  carries the draft's fields over, appends the node to the stored list in one write that
  leaves the stored nodes as they were, and returns the node.
\<close>

theorem add_materializes_and_appends:
  assumes "addBookmarkOrFolder node uuid t1 t2 s = (n, s')"
  shows "nodeId n = uuid \<and> createdAt n = Some t1
       \<and> lastAccessed n = (if d_type node = bookmark then Some t2 else None)
       \<and> accessCount n = (if d_type node = bookmark then Some 0 else None)
       \<and> type n = Some (d_type node) \<and> title n = Some (d_title node) \<and> url n = d_url node
       \<and> parentId n = d_parentId node \<and> categoryId n = d_categoryId node
       \<and> tags n = d_tags node \<and> description n = d_description node
       \<and> getBookmarks s' = getBookmarks s @ [n]
       \<and> s' = setBookmarks (getBookmarks s @ [n]) s
       \<and> writes s' = Suc (writes s)
       \<and> distinct (map nodeId (getBookmarks s'))
           = (uuid \<notin> nodeId ` set (getBookmarks s) \<and> distinct (map nodeId (getBookmarks s)))"
proof -
  from assms have n: "n = newNode node uuid t1 t2"
    and s': "s' = setBookmarks (getBookmarks s @ [n]) s"
    by (auto simp: addBookmarkOrFolder_def Let_def)
  show ?thesis
    unfolding s' by (auto simp: n newNode_def writes_setBookmarks)
qed

theorem add_materializes_and_appends_witness:
  "nodeId (fst (addBookmarkOrFolder exDraft ''u-1'' 5000 5001 treeStore)) = ''u-1''
   \<and> createdAt (fst (addBookmarkOrFolder exDraft ''u-1'' 5000 5001 treeStore)) = Some 5000
   \<and> lastAccessed (fst (addBookmarkOrFolder exDraft ''u-1'' 5000 5001 treeStore)) = Some 5001
   \<and> accessCount (fst (addBookmarkOrFolder exDraft ''u-1'' 5000 5001 treeStore)) = Some 0
   \<and> getBookmarks (snd (addBookmarkOrFolder exDraft ''u-1'' 5000 5001 treeStore))
       = [folderA, folderB, bookmarkX, bookmarkY, fst (addBookmarkOrFolder exDraft ''u-1'' 5000 5001 treeStore)]
   \<and> writes (snd (addBookmarkOrFolder exDraft ''u-1'' 5000 5001 treeStore)) = 1
   \<and> distinct (map nodeId (getBookmarks (snd (addBookmarkOrFolder exDraft ''u-1'' 5000 5001 treeStore))))"
proof -
  have fresh: "''u-1'' \<notin> nodeId ` set (getBookmarks treeStore)
               \<and> distinct (map nodeId (getBookmarks treeStore))"
    by (simp add: getBookmarks_treeStore folderA_def folderB_def bookmarkX_def bookmarkY_def)
  have w: "writes treeStore = 0" by (simp add: treeStore_def emptyStore_def)
  from add_materializes_and_appends[of exDraft "''u-1''" 5000 5001 treeStore
            "fst (addBookmarkOrFolder exDraft ''u-1'' 5000 5001 treeStore)"
            "snd (addBookmarkOrFolder exDraft ''u-1'' 5000 5001 treeStore)"] fresh w
  show ?thesis
    by (simp add: exDraft_def getBookmarks_treeStore folderA_def folderB_def
                  bookmarkX_def bookmarkY_def)
qed


text \<open>
  The claim as stated has add assign a fresh unique id. The id is the generator's and
  nothing compares it: when the generator returns the id of the stored FolderA, the
  list holds two nodes with that id.
\<close>

theorem add_repeated_id_counterexample:
  "''A'' \<in> nodeId ` set (getBookmarks treeStore)
   \<and> nodeId (fst (addBookmarkOrFolder exDraft ''A'' 5000 5001 treeStore)) = ''A''
   \<and> \<not> distinct (map nodeId (getBookmarks (snd (addBookmarkOrFolder exDraft ''A'' 5000 5001 treeStore))))"
  by (simp add: addBookmarkOrFolder_def Let_def newNode_def getBookmarks_treeStore
                folderA_def folderB_def bookmarkX_def bookmarkY_def)

text \<open>
  Claim C4, as amended: for every stored node whose type is bookmark, every call
  update(id, partialFields) that finds it sets the node's \<^verbatim>\<open>lastAccessed\<close> to the clock
  reading of the call, whatever partialFields contains. After add of a bookmark under a
  fresh id and then update with partialFields that have no \<^verbatim>\<open>createdAt\<close>, the returned
  node's \<^verbatim>\<open>lastAccessed\<close> is the clock reading of the update and its \<^verbatim>\<open>createdAt\<close>
  the one of the add: the first is strictly greater than the second exactly when the
  clock advanced between the two calls.
\<close>

theorem update_bookmark_refreshes_lastAccessed:
  "(findIndex (\<lambda>b. nodeId b = i) (getBookmarks s) = Some k
      \<and> type (getBookmarks s ! k) = Some bookmark
    \<longrightarrow> lastAccessed (fst (updateBookmarkNode i updates now s)) = Some now
        \<and> getBookmarks (snd (updateBookmarkNode i updates now s)) ! k
            = fst (updateBookmarkNode i updates now s))
   \<and> (uuid \<notin> nodeId ` set (getBookmarks s) \<and> d_type node = bookmark
        \<and> u_createdAt upd = None
    \<longrightarrow> lastAccessed (fst (updateBookmarkNode uuid upd t3
                               (snd (addBookmarkOrFolder node uuid t1 t2 s)))) = Some t3
        \<and> createdAt (fst (updateBookmarkNode uuid upd t3
                               (snd (addBookmarkOrFolder node uuid t1 t2 s)))) = Some t1)"
proof (intro conjI impI)
  assume h: "findIndex (\<lambda>b. nodeId b = i) (getBookmarks s) = Some k
             \<and> type (getBookmarks s ! k) = Some bookmark"
  then have k: "k < length (getBookmarks s)" using findIndex_Some by blast
  from h show "lastAccessed (fst (updateBookmarkNode i updates now s)) = Some now"
    by (simp add: update_found updatedNode_def)
  from h k show "getBookmarks (snd (updateBookmarkNode i updates now s)) ! k
                   = fst (updateBookmarkNode i updates now s)"
    by (simp add: update_found)
next
  assume h: "uuid \<notin> nodeId ` set (getBookmarks s) \<and> d_type node = bookmark
             \<and> u_createdAt upd = None"
  let ?s1 = "snd (addBookmarkOrFolder node uuid t1 t2 s)"
  let ?n = "newNode node uuid t1 t2"
  have bs: "getBookmarks ?s1 = getBookmarks s @ [?n]"
    by (simp add: addBookmarkOrFolder_def Let_def)
  have idx: "findIndex (\<lambda>b. nodeId b = uuid) (getBookmarks ?s1) = Some (length (getBookmarks s))"
    unfolding bs using h by (intro findIndex_append_fresh) (auto simp: newNode_def)
  have r: "fst (updateBookmarkNode uuid upd t3 ?s1) = updatedNode ?n upd t3"
    by (simp add: update_found[OF idx] bs)
  from h show "lastAccessed (fst (updateBookmarkNode uuid upd t3 ?s1)) = Some t3"
    by (simp add: r updatedNode_def newNode_def)
  from h show "createdAt (fst (updateBookmarkNode uuid upd t3 ?s1)) = Some t1"
    by (simp add: r updatedNode_def newNode_def spread_def)
qed

theorem update_bookmark_refreshes_lastAccessed_witness:
  "lastAccessed (fst (updateBookmarkNode ''Y'' renameUpdates 9000 treeStore)) = Some 9000
   \<and> title (fst (updateBookmarkNode ''u-1'' renameUpdates 7000
                    (snd (addBookmarkOrFolder exDraft ''u-1'' 5000 5001 treeStore)))) = Some ''Ex2''
   \<and> lastAccessed (fst (updateBookmarkNode ''u-1'' renameUpdates 7000
                    (snd (addBookmarkOrFolder exDraft ''u-1'' 5000 5001 treeStore)))) = Some 7000
   \<and> createdAt (fst (updateBookmarkNode ''u-1'' renameUpdates 7000
                    (snd (addBookmarkOrFolder exDraft ''u-1'' 5000 5001 treeStore)))) = Some 5000"
proof -
  have h1: "findIndex (\<lambda>b. nodeId b = ''Y'') (getBookmarks treeStore) = Some 3
            \<and> type (getBookmarks treeStore ! 3) = Some bookmark"
    by (simp add: getBookmarks_treeStore folderA_def folderB_def bookmarkX_def bookmarkY_def)
  have h2: "''u-1'' \<notin> nodeId ` set (getBookmarks treeStore) \<and> d_type exDraft = bookmark
            \<and> u_createdAt renameUpdates = None"
    by (simp add: getBookmarks_treeStore folderA_def folderB_def bookmarkX_def bookmarkY_def
                  exDraft_def renameUpdates_def noUpdates_def)
  have t: "title (fst (updateBookmarkNode ''u-1'' renameUpdates 7000
                    (snd (addBookmarkOrFolder exDraft ''u-1'' 5000 5001 treeStore)))) = Some ''Ex2''"
    by (simp add: updateBookmarkNode_def addBookmarkOrFolder_def Let_def getBookmarks_treeStore
                  folderA_def folderB_def bookmarkX_def bookmarkY_def newNode_def
                  updatedNode_def renameUpdates_def noUpdates_def spread_def)
  from update_bookmark_refreshes_lastAccessed[of "''Y''" treeStore 3 renameUpdates 9000 "''u-1''" exDraft renameUpdates 7000 5000 5001]
       h1 h2 t
  show ?thesis by simp
qed

text \<open>
  The claim as stated asks for strictly greater. Add and update within the same
  millisecond give the scenario's node equal \<^verbatim>\<open>createdAt\<close> and \<^verbatim>\<open>lastAccessed\<close>.
\<close>

theorem add_then_update_same_instant_counterexample:
  "title (fst (updateBookmarkNode ''u-1'' renameUpdates 5000
          (snd (addBookmarkOrFolder exDraft ''u-1'' 5000 5000 emptyStore)))) = Some ''Ex2''
   \<and> createdAt (fst (updateBookmarkNode ''u-1'' renameUpdates 5000
          (snd (addBookmarkOrFolder exDraft ''u-1'' 5000 5000 emptyStore)))) = Some 5000
   \<and> lastAccessed (fst (updateBookmarkNode ''u-1'' renameUpdates 5000
          (snd (addBookmarkOrFolder exDraft ''u-1'' 5000 5000 emptyStore)))) = Some 5000
   \<and> \<not> the (createdAt (fst (updateBookmarkNode ''u-1'' renameUpdates 5000
          (snd (addBookmarkOrFolder exDraft ''u-1'' 5000 5000 emptyStore)))))
       < the (lastAccessed (fst (updateBookmarkNode ''u-1'' renameUpdates 5000
          (snd (addBookmarkOrFolder exDraft ''u-1'' 5000 5000 emptyStore)))))"
  by (simp add: updateBookmarkNode_def addBookmarkOrFolder_def Let_def getBookmarks_def
                emptyStore_def setBookmarks_def newNode_def exDraft_def
                updatedNode_def renameUpdates_def noUpdates_def spread_def)

text \<open>
  Claim C10: for every stored node whose type is folder, every call
  update(id, partialFields) that finds it returns and stores a node whose
  \<^verbatim>\<open>lastAccessed\<close> is undefined, whatever the folder carried before and whatever
  partialFields contains.
\<close>

theorem update_folder_clears_lastAccessed:
  assumes "findIndex (\<lambda>b. nodeId b = i) (getBookmarks s) = Some k"
      and "type (getBookmarks s ! k) = Some folder"
  shows "lastAccessed (fst (updateBookmarkNode i updates now s)) = None
       \<and> getBookmarks (snd (updateBookmarkNode i updates now s))
           = (getBookmarks s)[k := fst (updateBookmarkNode i updates now s)]
       \<and> lastAccessed (getBookmarks (snd (updateBookmarkNode i updates now s)) ! k) = None"
proof -
  from findIndex_Some[OF assms(1)] have "k < length (getBookmarks s)" by simp
  with assms show ?thesis
    by (simp add: updateBookmarkNode_def Let_def updatedNode_def)
qed

theorem update_folder_clears_lastAccessed_witness:
  "lastAccessed (getBookmarks importedStore ! 0) = Some 1500
   \<and> u_lastAccessed renameUpdates = None
   \<and> lastAccessed (fst (updateBookmarkNode ''F'' renameUpdates 9000 importedStore)) = None
   \<and> lastAccessed (getBookmarks (snd (updateBookmarkNode ''F'' renameUpdates 9000 importedStore)) ! 0) = None"
proof -
  have bs: "getBookmarks importedStore = [importedFolder, bookmarkY]"
    by (simp add: getBookmarks_def importedStore_def emptyStore_def)
  have h1: "findIndex (\<lambda>b. nodeId b = ''F'') (getBookmarks importedStore) = Some 0"
    by (simp add: bs importedFolder_def)
  have h2: "type (getBookmarks importedStore ! 0) = Some folder"
    by (simp add: bs importedFolder_def folderA_def)
  from update_folder_clears_lastAccessed[OF h1 h2, of renameUpdates 9000] show ?thesis
    by (simp add: bs importedFolder_def renameUpdates_def noUpdates_def)
qed

text \<open>
  Claim C2, as amended: for every stored node list, every id not present in it and every
  complete node snapshot, update(id, snapshot) appends one node to the list and returns
  it: the snapshot under that id with every field as it was, except \<^verbatim>\<open>lastAccessed\<close>,
  which is the clock reading of the call for a bookmark and undefined otherwise.
\<close>

theorem update_missing_id_restores_snapshot:
  assumes "i \<notin> nodeId ` set (getBookmarks s)"
  shows "fst (updateBookmarkNode i (asUpdates snap) now s)
           = snap\<lparr>nodeId := i,
                  lastAccessed := (if type snap = Some bookmark then Some now else None)\<rparr>
       \<and> getBookmarks (snd (updateBookmarkNode i (asUpdates snap) now s))
           = getBookmarks s @ [fst (updateBookmarkNode i (asUpdates snap) now s)]
       \<and> snd (updateBookmarkNode i (asUpdates snap) now s)
           = setBookmarks (getBookmarks s @ [fst (updateBookmarkNode i (asUpdates snap) now s)]) s"
  by (simp add: update_missing[OF assms] restoredNode_def asUpdates_def)

theorem update_missing_id_restores_snapshot_witness:
  "deleteBookmarkNode ''Y'' treeStore = Some (True, storeAfterDeleteY)
   \<and> fst (updateBookmarkNode ''Y'' (asUpdates bookmarkY) 9000 storeAfterDeleteY)
       = bookmarkY\<lparr>lastAccessed := Some 9000\<rparr>
   \<and> getBookmarks (snd (updateBookmarkNode ''Y'' (asUpdates bookmarkY) 9000 storeAfterDeleteY))
       = [folderA, folderB, bookmarkX, bookmarkY\<lparr>lastAccessed := Some 9000\<rparr>]"
proof -
  have bs: "getBookmarks storeAfterDeleteY = [folderA, folderB, bookmarkX]"
    by (simp add: storeAfterDeleteY_def)
  have h: "''Y'' \<notin> nodeId ` set (getBookmarks storeAfterDeleteY)"
    by (simp add: bs folderA_def folderB_def bookmarkX_def)
  have d: "deleteBookmarkNode ''Y'' treeStore = Some (True, storeAfterDeleteY)"
    by (simp add: deleteBookmarkNode_eq getBookmarks_treeStore childOf_def storeAfterDeleteY_def
                  folderA_def folderB_def bookmarkX_def bookmarkY_def)
  from update_missing_id_restores_snapshot[OF h, of bookmarkY 9000] d show ?thesis
    by (simp add: bs bookmarkY_def)
qed

text \<open>
  The claim as stated asks for the snapshot field for field. Deleting BookmarkY, last
  accessed at 2000, and restoring it at 9000 as the undo path does stores a node that
  differs from the snapshot: no stored node equals it.
\<close>

theorem undo_restore_not_verbatim_counterexample:
  "deleteBookmarkNode ''Y'' treeStore = Some (True, storeAfterDeleteY)
   \<and> fst (updateBookmarkNode ''Y'' (asUpdates bookmarkY) 9000 storeAfterDeleteY) \<noteq> bookmarkY
   \<and> bookmarkY \<notin> set (getBookmarks (snd (updateBookmarkNode ''Y'' (asUpdates bookmarkY) 9000 storeAfterDeleteY)))"
proof -
  have bs: "getBookmarks storeAfterDeleteY = [folderA, folderB, bookmarkX]"
    by (simp add: storeAfterDeleteY_def)
  have h: "''Y'' \<notin> nodeId ` set (getBookmarks storeAfterDeleteY)"
    by (simp add: bs folderA_def folderB_def bookmarkX_def)
  have d: "deleteBookmarkNode ''Y'' treeStore = Some (True, storeAfterDeleteY)"
    by (simp add: deleteBookmarkNode_eq getBookmarks_treeStore childOf_def storeAfterDeleteY_def
                  folderA_def folderB_def bookmarkX_def bookmarkY_def)
  show ?thesis
    by (simp add: d update_missing[OF h] restoredNode_def asUpdates_def bs
                  folderA_def folderB_def bookmarkX_def bookmarkY_def)
qed

section \<open>Category deletion\<close>

text \<open>
  Claim C9: for every category id, \<^verbatim>\<open>deleteCategory(id)\<close> leaves the stored bookmark
  list as it was, so a bookmark that refers to the id through \<^verbatim>\<open>categoryId\<close> is
  neither deleted nor modified, and afterwards no stored category has that id.
\<close>

theorem deleteCategory_leaves_bookmarks: "bookmarks_key (deleteCategory i s) = bookmarks_key s
  \<and> getBookmarks (deleteCategory i s) = getBookmarks s
  \<and> i \<notin> catId ` set (case categories_key (deleteCategory i s) of None \<Rightarrow> [] | Some cs \<Rightarrow> cs)"
  by (auto simp: deleteCategory_def setCategories_def getBookmarks_def Let_def)

section \<open>Duplicate detection\<close>

lemma uniq_snoc:
  "uniq (xs @ [x]) = (if x \<in> set (uniq xs) then uniq xs else uniq xs @ [x])"
  by (simp add: uniq_def)

lemma uniq_Nil [simp]: "uniq [] = []"
  by (simp add: uniq_def)

lemma set_uniq: "set (uniq xs) = set xs"
  by (induction xs rule: rev_induct) (auto simp: uniq_snoc)

lemma distinct_uniq: "distinct (uniq xs)"
  by (induction xs rule: rev_induct) (auto simp: uniq_snoc)

lemma pushTo_map:
  "distinct ks \<Longrightarrow>
     pushTo k v (map (\<lambda>k'. (k', g k')) ks)
       = map (\<lambda>k'. (k', if k' = k then g k' @ [v] else g k')) ks"
proof (induction ks)
  case Nil show ?case by simp
next
  case (Cons k0 ks)
  show ?case
  proof (cases "k0 = k")
    case True
    with Cons.prems have "k \<notin> set ks" by simp
    then have "map (\<lambda>k'. (k', g k')) ks = map (\<lambda>k'. (k', if k' = k then g k' @ [v] else g k')) ks"
      by (intro map_cong) auto
    with True show ?thesis by simp
  next
    case False
    with Cons show ?thesis by simp
  qed
qed

lemma buildUrlMap_snoc: "buildUrlMap (bs @ [b]) = recordUrl (buildUrlMap bs) b"
  by (simp add: buildUrlMap_def)

lemma buildUrlMap_closed:
  "buildUrlMap bs
     = map (\<lambda>k. (k, map nodeId (filter (\<lambda>b. urlKey b = k) bs))) (uniq (map urlKey bs))"
proof (induction bs rule: rev_induct)
  case Nil show ?case by (simp add: buildUrlMap_def)
next
  case (snoc b bs)
  let ?k = "urlKey b" and ?v = "nodeId b"
  let ?U = "uniq (map urlKey bs)"
  let ?g = "\<lambda>k. map nodeId (filter (\<lambda>b. urlKey b = k) bs)"
  let ?g' = "\<lambda>k. map nodeId (filter (\<lambda>x. urlKey x = k) (bs @ [b]))"
  have g': "\<And>k'. (if k' = ?k then ?g k' @ [?v] else ?g k') = ?g' k'" by auto
  have has: "mapHas (map (\<lambda>k. (k, ?g k)) ?U) ?k = (?k \<in> set ?U)"
    by (simp add: mapHas_def comp_def)
  show ?case
  proof (cases "?k \<in> set ?U")
    case True
    then have U': "uniq (map urlKey (bs @ [b])) = ?U" by (simp add: uniq_snoc)
    have "buildUrlMap (bs @ [b]) = pushTo ?k ?v (map (\<lambda>k. (k, ?g k)) ?U)"
      using True by (simp add: buildUrlMap_snoc snoc.IH recordUrl_def Let_def has)
    also have "\<dots> = map (\<lambda>k'. (k', if k' = ?k then ?g k' @ [?v] else ?g k')) ?U"
      by (rule pushTo_map) (rule distinct_uniq)
    also have "\<dots> = map (\<lambda>k'. (k', ?g' k')) ?U" by (simp only: g')
    finally show ?thesis by (simp only: U')
  next
    case False
    then have U': "uniq (map urlKey (bs @ [b])) = ?U @ [?k]" by (simp add: uniq_snoc)
    from False have "?k \<notin> urlKey ` set bs" by (simp add: set_uniq)
    then have "\<forall>x\<in>set bs. urlKey x \<noteq> ?k" by (metis imageI)
    then have empty: "?g ?k = []" by (simp add: filter_empty_conv)
    have d: "distinct (?U @ [?k])" using False by (simp add: distinct_uniq)
    have "buildUrlMap (bs @ [b]) = pushTo ?k ?v (map (\<lambda>k. (k, ?g k)) ?U @ [(?k, [])])"
      using False by (simp add: buildUrlMap_snoc snoc.IH recordUrl_def Let_def has)
    also have "map (\<lambda>k. (k, ?g k)) ?U @ [(?k, [])] = map (\<lambda>k. (k, ?g k)) (?U @ [?k])"
      by (simp add: empty)
    also have "pushTo ?k ?v \<dots> = map (\<lambda>k'. (k', if k' = ?k then ?g k' @ [?v] else ?g k')) (?U @ [?k])"
      by (rule pushTo_map) (rule d)
    also have "\<dots> = map (\<lambda>k'. (k', ?g' k')) (?U @ [?k])" by (simp only: g')
    finally show ?thesis by (simp only: U')
  qed
qed

lemma findDuplicates_closed:
  "findDuplicates bs
     = map (\<lambda>k. \<lparr>g_url = k, g_ids = map nodeId (filter (\<lambda>b. urlKey b = k) bs)\<rparr>)
         (filter (\<lambda>k. length (filter (\<lambda>b. urlKey b = k) bs) > 1) (uniq (map urlKey bs)))"
  by (simp add: findDuplicates_def buildUrlMap_closed filter_map comp_def)


lemma member_ids_by_url:
  assumes "distinct (map nodeId bs)" "b \<in> set bs"
  shows "(nodeId b \<in> set (map nodeId (filter (\<lambda>x. urlKey x = u) bs))) = (urlKey b = u)"
proof
  assume "nodeId b \<in> set (map nodeId (filter (\<lambda>x. urlKey x = u) bs))"
  then obtain x where x: "x \<in> set bs" "urlKey x = u" "nodeId x = nodeId b" by auto
  from assms(1) have "inj_on nodeId (set bs)" by (simp add: distinct_map)
  with x(1,3) assms(2) have "x = b" by (auto dest: inj_onD)
  with x(2) show "urlKey b = u" by simp
next
  assume "urlKey b = u"
  with assms(2) show "nodeId b \<in> set (map nodeId (filter (\<lambda>x. urlKey x = u) bs))" by auto
qed

lemma findDuplicates_dupList: "findDuplicates dupList = [exGroup]"
  by (simp add: findDuplicates_def buildUrlMap_def recordUrl_def mapHas_def urlKey_def Let_def
                dupList_def dupA_def dupB_def dupC_def bookmarkX_def bookmarkY_def exGroup_def)

text \<open>
  Claim C6, as amended: for every node list, duplicate detection groups the nodes by
  their url read as \<^verbatim>\<open>bm.url || ''\<close>, a node without url counting as one whose url is the
  empty string, and otherwise by the exact string. Every reported group has at least two
  members, and its members are the ids of exactly the nodes whose url is the group's, in
  list order; no two groups have the same url; the ids marked as duplicates are the
  members of the groups; a url has a group exactly when at least two nodes carry it.
  For a node list with pairwise different ids, a node is a member of a group exactly
  when its url, read so, is the group's: any two members of a group have the same url,
  and a node whose url occurs only once is a member of no group.
\<close>

theorem findDuplicates_groups:
  "(\<forall>g\<in>set (findDuplicates bs).
        2 \<le> length (g_ids g)
      \<and> g_ids g = map nodeId (filter (\<lambda>b. urlKey b = g_url g) bs))
   \<and> distinct (map g_url (findDuplicates bs))
   \<and> duplicateIds bs = concat (map g_ids (findDuplicates bs))
   \<and> (\<forall>b\<in>set bs. (urlKey b \<in> g_url ` set (findDuplicates bs))
                     = (2 \<le> length (filter (\<lambda>x. urlKey x = urlKey b) bs)))
   \<and> (distinct (map nodeId bs) \<longrightarrow>
        (\<forall>g\<in>set (findDuplicates bs). \<forall>b\<in>set bs.
            (nodeId b \<in> set (g_ids g)) = (urlKey b = g_url g))
      \<and> (\<forall>b\<in>set bs. length (filter (\<lambda>x. urlKey x = urlKey b) bs) = 1 \<longrightarrow>
            (\<forall>g\<in>set (findDuplicates bs). nodeId b \<notin> set (g_ids g))))"
proof -
  let ?n = "\<lambda>k. length (filter (\<lambda>b. urlKey b = k) bs)"
  have groups: "\<And>g. g \<in> set (findDuplicates bs) \<Longrightarrow>
          2 \<le> ?n (g_url g) \<and> g_ids g = map nodeId (filter (\<lambda>b. urlKey b = g_url g) bs)"
    by (auto simp: findDuplicates_closed)
  have A: "\<forall>g\<in>set (findDuplicates bs).
        2 \<le> length (g_ids g)
      \<and> g_ids g = map nodeId (filter (\<lambda>b. urlKey b = g_url g) bs)"
    using groups by auto
  have urls: "map g_url (findDuplicates bs) = filter (\<lambda>k. ?n k > 1) (uniq (map urlKey bs))"
    by (simp add: findDuplicates_closed comp_def)
  have B: "distinct (map g_url (findDuplicates bs))"
    unfolding urls by (intro distinct_filter distinct_uniq)
  have C: "\<forall>b\<in>set bs. (urlKey b \<in> g_url ` set (findDuplicates bs)) = (2 \<le> ?n (urlKey b))"
  proof
    fix b assume "b \<in> set bs"
    have "g_url ` set (findDuplicates bs) = set (map g_url (findDuplicates bs))" by simp
    also have "\<dots> = {k \<in> urlKey ` set bs. ?n k > 1}"
      unfolding urls by (auto simp: set_uniq)
    finally show "(urlKey b \<in> g_url ` set (findDuplicates bs)) = (2 \<le> ?n (urlKey b))"
      using \<open>b \<in> set bs\<close> by auto
  qed
  have D: "\<forall>g\<in>set (findDuplicates bs). \<forall>b\<in>set bs.
            (nodeId b \<in> set (g_ids g)) = (urlKey b = g_url g)"
    if d: "distinct (map nodeId bs)"
  proof (intro ballI)
    fix g b assume g: "g \<in> set (findDuplicates bs)" and b: "b \<in> set bs"
    from groups[OF g] have "g_ids g = map nodeId (filter (\<lambda>b. urlKey b = g_url g) bs)" by simp
    with member_ids_by_url[OF d b, of "g_url g"]
    show "(nodeId b \<in> set (g_ids g)) = (urlKey b = g_url g)" by simp
  qed
  have E: "\<forall>b\<in>set bs. ?n (urlKey b) = 1 \<longrightarrow>
            (\<forall>g\<in>set (findDuplicates bs). nodeId b \<notin> set (g_ids g))"
    if d: "distinct (map nodeId bs)"
  proof (intro ballI impI)
    fix b g assume b: "b \<in> set bs" and one: "?n (urlKey b) = 1"
      and g: "g \<in> set (findDuplicates bs)"
    show "nodeId b \<notin> set (g_ids g)"
    proof
      assume "nodeId b \<in> set (g_ids g)"
      with D[OF d] g b have "urlKey b = g_url g" by blast
      with groups[OF g] one show False by simp
    qed
  qed
  have F: "duplicateIds bs = concat (map g_ids (findDuplicates bs))"
    by (simp add: duplicateIds_def findDuplicates_def filter_map comp_def split_def)
  from A B C D E F show ?thesis by blast
qed

theorem findDuplicates_groups_witness:
  "findDuplicates dupList = [exGroup]
   \<and> g_ids exGroup = [nodeId dupA, nodeId dupB]
   \<and> urlKey dupA = urlKey dupB
   \<and> urlKey dupC \<noteq> urlKey dupA
   \<and> nodeId bookmarkY \<notin> set (g_ids exGroup)
   \<and> nodeId dupC \<notin> set (g_ids exGroup)"
proof -
  have d: "distinct (map nodeId dupList)"
    by (simp add: dupList_def dupA_def dupB_def dupC_def bookmarkX_def bookmarkY_def)
  have m: "bookmarkY \<in> set dupList" "dupC \<in> set dupList" "exGroup \<in> set (findDuplicates dupList)"
    by (simp_all add: findDuplicates_dupList) (simp_all add: dupList_def)
  have one: "length (filter (\<lambda>x. urlKey x = urlKey bookmarkY) dupList) = 1"
            "length (filter (\<lambda>x. urlKey x = urlKey dupC) dupList) = 1"
    by (simp_all add: urlKey_def dupList_def dupA_def dupB_def dupC_def bookmarkX_def bookmarkY_def)
  from findDuplicates_groups[of dupList] d m one
  have "nodeId bookmarkY \<notin> set (g_ids exGroup)" "nodeId dupC \<notin> set (g_ids exGroup)"
    by blast+
  then show ?thesis
    by (simp add: findDuplicates_dupList)
       (simp add: urlKey_def exGroup_def dupA_def dupB_def dupC_def bookmarkX_def bookmarkY_def)
qed


text \<open>
  The claim as stated speaks of the url itself and of every node list. A folder without
  url and a bookmark whose url is the empty string form a group although their urls
  differ and each occurs once. And where a node repeats the id of a group member under a
  url of its own, that node's url occurs once and its id is a member of the group.
\<close>

theorem findDuplicates_url_counterexample:
  "findDuplicates [folderA, blankUrl] = [\<lparr>g_url = [], g_ids = [''A'', ''E'']\<rparr>]
   \<and> nodeId folderA = ''A'' \<and> nodeId blankUrl = ''E''
   \<and> url folderA \<noteq> url blankUrl
   \<and> length (filter (\<lambda>x. url x = url folderA) [folderA, blankUrl]) = 1
   \<and> length (filter (\<lambda>x. url x = url blankUrl) [folderA, blankUrl]) = 1
   \<and> findDuplicates [dupA, dupB, dupD] = [exGroup]
   \<and> length (filter (\<lambda>x. url x = url dupD) [dupA, dupB, dupD]) = 1
   \<and> nodeId dupD \<in> set (g_ids exGroup)"
  by (simp add: findDuplicates_def buildUrlMap_def recordUrl_def mapHas_def urlKey_def Let_def
                folderA_def blankUrl_def dupA_def dupB_def dupC_def dupD_def
                bookmarkX_def bookmarkY_def exGroup_def)

section \<open>Merge\<close>







section \<open>Undo expiry\<close>

lemma ceilDiv1000_expired: "(ceilDiv1000 x \<le> 0) = (x \<le> 0)"
proof -
  have "(0 \<le> (- x) div 1000) = (0 \<le> - x)" by (rule pos_imp_zdiv_nonneg_iff) simp
  then show ?thesis by (simp add: ceilDiv1000_def)
qed

lemma handleDeleteWithUndo_example:
  "handleDeleteWithUndo ''Y'' 1000 (idleBuffer, treeStore) = Some (pendingBuffer, pendingStore)"
proof -
  let ?s' = "treeStore\<lparr>lastDeletedBookmark_key := Some bookmarkY, undoExpire_key := Some 6000,
                         writes := Suc (writes treeStore)\<rparr>"
  have bs: "getBookmarks ?s' = [folderA, folderB, bookmarkX, bookmarkY]"
    by (simp add: getBookmarks_def treeStore_def emptyStore_def)
  have d: "deleteBookmarkNode ''Y'' ?s' = Some (True, pendingStore)"
    unfolding deleteBookmarkNode_eq bs pendingStore_def
    by (simp add: childOf_def folderA_def folderB_def bookmarkX_def bookmarkY_def)
  have f: "find (\<lambda>b. nodeId b = ''Y'') (getBookmarks treeStore) = Some bookmarkY"
    by (simp add: getBookmarks_treeStore folderA_def folderB_def bookmarkX_def)
       (simp add: bookmarkY_def)
  show ?thesis
    by (simp add: handleDeleteWithUndo_def f Let_def d pendingBuffer_def idleBuffer_def)
qed

text \<open>
  Claim C8, as amended: for every pending single-delete undo buffer (a buffered node and
  an expiry that is not zero) whose undo affordance is not hovered, the countdown tick at
  or after the expiry timestamp transitions the
  buffer to expired: the pending node and the expiry are discarded, the persisted undo
  record (\<^verbatim>\<open>lastDeletedBookmark\<close>, \<^verbatim>\<open>undoExpire\<close>) is cleared, the stored bookmarks are
  untouched and a later undo does nothing; a tick before the expiry leaves the node
  pending and the store as it was. On reload, a persisted record whose expiry has passed
  is cleared rather than restored.
\<close>

theorem countdown_expiry_clears_undo:
  "(lastDeleted u = Some n \<and> undoExpire u = Some e \<and> e \<noteq> 0 \<and> \<not> undoHovered u \<and> e \<le> now
      \<longrightarrow> lastDeleted (fst (countdownTick now (u, s))) = None
        \<and> undoExpire (fst (countdownTick now (u, s))) = None
        \<and> snd (countdownTick now (u, s)) = removeUndoRecord s
        \<and> lastDeletedBookmark_key (snd (countdownTick now (u, s))) = None
        \<and> undoExpire_key (snd (countdownTick now (u, s))) = None
        \<and> bookmarks_key (snd (countdownTick now (u, s))) = bookmarks_key s
        \<and> handleUndo later (countdownTick now (u, s)) = countdownTick now (u, s))
   \<and> (lastDeleted u = Some n \<and> undoExpire u = Some e \<and> e \<noteq> 0 \<and> \<not> undoHovered u \<and> now < e
      \<longrightarrow> lastDeleted (fst (countdownTick now (u, s))) = Some n
        \<and> snd (countdownTick now (u, s)) = s)
   \<and> (lastDeletedBookmark_key s = Some n \<and> undoExpire_key s = Some e \<and> e \<noteq> 0 \<and> e \<le> now
      \<longrightarrow> rehydrate now (u, s) = (u, removeUndoRecord s))"
proof (intro conjI impI)
  assume h: "lastDeleted u = Some n \<and> undoExpire u = Some e \<and> e \<noteq> 0 \<and> \<not> undoHovered u \<and> e \<le> now"
  then have t: "countdownTick now (u, s)
                  = (u\<lparr>undoSeconds := ceilDiv1000 (e - now), lastDeleted := None, undoExpire := None\<rparr>,
                     removeUndoRecord s)"
    by (simp add: countdownTick_def countdownRunning_def truthyNum_def Let_def ceilDiv1000_expired)
  show "lastDeleted (fst (countdownTick now (u, s))) = None" by (simp add: t)
  show "undoExpire (fst (countdownTick now (u, s))) = None" by (simp add: t)
  show "snd (countdownTick now (u, s)) = removeUndoRecord s" by (simp add: t)
  show "lastDeletedBookmark_key (snd (countdownTick now (u, s))) = None"
    by (simp add: t removeUndoRecord_def)
  show "undoExpire_key (snd (countdownTick now (u, s))) = None"
    by (simp add: t removeUndoRecord_def)
  show "bookmarks_key (snd (countdownTick now (u, s))) = bookmarks_key s"
    by (simp add: t removeUndoRecord_def)
  show "handleUndo later (countdownTick now (u, s)) = countdownTick now (u, s)"
    by (simp add: t handleUndo_def)
next
  assume h: "lastDeleted u = Some n \<and> undoExpire u = Some e \<and> e \<noteq> 0 \<and> \<not> undoHovered u \<and> now < e"
  then have t: "countdownTick now (u, s) = (u\<lparr>undoSeconds := ceilDiv1000 (e - now)\<rparr>, s)"
    by (simp add: countdownTick_def countdownRunning_def truthyNum_def Let_def ceilDiv1000_expired)
  from h show "lastDeleted (fst (countdownTick now (u, s))) = Some n" by (simp add: t)
  show "snd (countdownTick now (u, s)) = s" by (simp add: t)
next
  assume "lastDeletedBookmark_key s = Some n \<and> undoExpire_key s = Some e \<and> e \<noteq> 0 \<and> e \<le> now"
  then show "rehydrate now (u, s) = (u, removeUndoRecord s)"
    by (simp add: rehydrate_def truthyNum_def Let_def)
qed

theorem countdown_expiry_clears_undo_witness:
  "handleDeleteWithUndo ''Y'' 1000 (idleBuffer, treeStore) = Some (pendingBuffer, pendingStore)
   \<and> lastDeleted (fst (countdownTick 6000 (pendingBuffer, pendingStore))) = None
   \<and> lastDeletedBookmark_key (snd (countdownTick 6000 (pendingBuffer, pendingStore))) = None
   \<and> undoExpire_key (snd (countdownTick 6000 (pendingBuffer, pendingStore))) = None
   \<and> getBookmarks (snd (handleUndo 6500 (countdownTick 6000 (pendingBuffer, pendingStore))))
       = [folderA, folderB, bookmarkX]
   \<and> lastDeleted (fst (countdownTick 5900 (pendingBuffer, pendingStore))) = Some bookmarkY
   \<and> rehydrate 6000 (idleBuffer, pendingStore) = (idleBuffer, removeUndoRecord pendingStore)"
proof -
  have h1: "lastDeleted pendingBuffer = Some bookmarkY \<and> undoExpire pendingBuffer = Some 6000
            \<and> (6000::int) \<noteq> 0 \<and> \<not> undoHovered pendingBuffer \<and> (6000::int) \<le> 6000"
    by (simp add: pendingBuffer_def idleBuffer_def)
  have h2: "lastDeleted pendingBuffer = Some bookmarkY \<and> undoExpire pendingBuffer = Some 6000
            \<and> (6000::int) \<noteq> 0 \<and> \<not> undoHovered pendingBuffer \<and> (5900::int) < 6000"
    by (simp add: pendingBuffer_def idleBuffer_def)
  have h3: "lastDeletedBookmark_key pendingStore = Some bookmarkY
            \<and> undoExpire_key pendingStore = Some 6000 \<and> (6000::int) \<noteq> 0 \<and> (6000::int) \<le> 6000"
    by (simp add: pendingStore_def setBookmarks_def)
  have bs: "getBookmarks (removeUndoRecord pendingStore) = [folderA, folderB, bookmarkX]"
    by (simp add: getBookmarks_def removeUndoRecord_def pendingStore_def setBookmarks_def)
  note expired = countdown_expiry_clears_undo[of pendingBuffer bookmarkY 6000 6000 pendingStore 6500,
                     THEN conjunct1, rule_format, OF h1]
  note early = countdown_expiry_clears_undo[of pendingBuffer bookmarkY 6000 5900 pendingStore 6500,
                   THEN conjunct2, THEN conjunct1, rule_format, OF h2]
  note reload = countdown_expiry_clears_undo[of idleBuffer bookmarkY 6000 6000 pendingStore 6500,
                    THEN conjunct2, THEN conjunct2, rule_format, OF h3]
  from expired have "getBookmarks (snd (handleUndo 6500 (countdownTick 6000 (pendingBuffer, pendingStore))))
                       = [folderA, folderB, bookmarkX]"
    by (simp add: bs)
  with expired early reload handleDeleteWithUndo_example show ?thesis
    by (simp add: removeUndoRecord_def)
qed

text \<open>
  The claim as stated covers every pending buffer. While the pointer is over the undo
  affordance no countdown interval is installed: with the pointer there from 2000 on,
  the buffer with expiry 6000 is still pending at 7000, its persisted record is still
  stored, and the undo at 7000 puts the node back.
\<close>

theorem hovered_undo_survives_expiry_counterexample:
  "handleDeleteWithUndo ''Y'' 1000 (idleBuffer, treeStore) = Some (pendingBuffer, pendingStore)
   \<and> undoExpire (handleUndoMouseEnter 2000 pendingBuffer) = Some 6000
   \<and> countdownTick 7000 (handleUndoMouseEnter 2000 pendingBuffer, pendingStore)
       = (handleUndoMouseEnter 2000 pendingBuffer, pendingStore)
   \<and> lastDeleted (handleUndoMouseEnter 2000 pendingBuffer) = Some bookmarkY
   \<and> lastDeletedBookmark_key pendingStore = Some bookmarkY
   \<and> getBookmarks (snd (handleUndo 7000 (handleUndoMouseEnter 2000 pendingBuffer, pendingStore)))
       = [folderA, folderB, bookmarkX, bookmarkY\<lparr>lastAccessed := Some 7000\<rparr>]"
proof -
  have e: "handleUndoMouseEnter 2000 pendingBuffer
             = pendingBuffer\<lparr>undoHovered := True, undoPausedAt := Some 4000\<rparr>"
    by (simp add: handleUndoMouseEnter_def pendingBuffer_def idleBuffer_def truthyNum_def Let_def)
  have bs: "getBookmarks pendingStore = [folderA, folderB, bookmarkX]"
    by (simp add: pendingStore_def)
  have fresh: "''Y'' \<notin> nodeId ` set (getBookmarks pendingStore)"
    by (simp add: bs folderA_def folderB_def bookmarkX_def)
  have l: "lastDeleted (pendingBuffer\<lparr>undoHovered := True, undoPausedAt := Some 4000\<rparr>)
             = Some bookmarkY"
    by (simp add: pendingBuffer_def idleBuffer_def)
  have nid: "nodeId bookmarkY = ''Y''" by (simp add: bookmarkY_def)
  have upd: "updateBookmarkNode ''Y'' (asUpdates bookmarkY) 7000 pendingStore
               = (bookmarkY\<lparr>lastAccessed := Some 7000\<rparr>,
                  setBookmarks [folderA, folderB, bookmarkX, bookmarkY\<lparr>lastAccessed := Some 7000\<rparr>]
                    pendingStore)"
    unfolding update_missing[OF fresh] bs
    by (simp add: restoredNode_def asUpdates_def bookmarkY_def given_def spread_def)
  have u: "getBookmarks (snd (handleUndo 7000 (handleUndoMouseEnter 2000 pendingBuffer, pendingStore)))
             = [folderA, folderB, bookmarkX, bookmarkY\<lparr>lastAccessed := Some 7000\<rparr>]"
    unfolding e
    by (simp add: handleUndo_def l nid upd getBookmarks_def removeUndoRecord_def setBookmarks_def)
  have t: "countdownTick 7000 (handleUndoMouseEnter 2000 pendingBuffer, pendingStore)
             = (handleUndoMouseEnter 2000 pendingBuffer, pendingStore)"
    unfolding e by (simp add: countdownTick_def countdownRunning_def)
  have k: "lastDeletedBookmark_key pendingStore = Some bookmarkY"
    by (simp add: pendingStore_def setBookmarks_def)
  have x: "undoExpire (handleUndoMouseEnter 2000 pendingBuffer) = Some 6000"
    unfolding e by (simp add: pendingBuffer_def idleBuffer_def)
  have l': "lastDeleted (handleUndoMouseEnter 2000 pendingBuffer) = Some bookmarkY"
    unfolding e by (rule l)
  from handleDeleteWithUndo_example x t l' k u show ?thesis by simp
qed

end
